theory Spec2Isabelle
  imports Complex_Main
begin

section \<open>Data model of \<open>scripts/data_ingestion.py\<close>\<close>

text \<open>
  A cell of a pandas data frame. \<open>Null\<close> stands for every missing value
  (\<open>NaN\<close>, \<open>NaT\<close>, \<open>None\<close>): \<open>dropna\<close> and \<open>fillna\<close> treat them alike, so
  \<open>df.replace({pd.NaT: None})\<close> is the identity on this model. Numbers are
  rationals, a timestamp is its number of nanoseconds since the epoch.
\<close>

datatype cell = Null | Num rat | Str string | Ts int

text \<open>
  A data frame: the column labels in order and the rows, each row the list of
  its cells in column order. \<open>pd.read_csv\<close> yields frames with pairwise
  different labels.
\<close>

record dataframe =
  columns :: "string list"
  rows :: "cell list list"

datatype error =
    KeyError "string list"
  | ValueError
  | DatabaseError
  | FileNotFoundError
  | DownloadError
  | SystemExit nat

text \<open>
  What the program cannot decide by itself: the two pandas converters, and the
  answers of the database driver and of the network, which may depend on
  everything that happened before (the world, defined below, carries the
  history). pandas converts a column as a whole. With \<open>errors='coerce'\<close> a
  cell that does not parse becomes missing (\<open>None\<close> here), but how a cell reads
  may depend on the rest of its column (the format is inferred from it), and
  the call may still raise for the column: \<open>pd.to_datetime\<close> raises \<open>ValueError\<close>
  on strings with different UTC offsets. So each converter has the column as
  an argument and comes with the exception, if any, that the column provokes.
\<close>

record parsers =
  parse_datetime :: "cell list \<Rightarrow> cell \<Rightarrow> int option"
  datetime_error :: "cell list \<Rightarrow> error option"
  parse_numeric :: "cell list \<Rightarrow> cell \<Rightarrow> rat option"
  numeric_error :: "cell list \<Rightarrow> error option"

section \<open>The cleaner: \<open>clean_chunk\<close>\<close>

text \<open>\<open>pd.to_datetime(s, errors='coerce')\<close> and \<open>pd.to_numeric(s, errors='coerce')\<close>.\<close>

definition to_datetime :: "parsers \<Rightarrow> cell list \<Rightarrow> error + cell list" where
  "to_datetime ps s =
     (case datetime_error ps s of
        Some e \<Rightarrow> Inl e
      | None \<Rightarrow> Inr (map (\<lambda>v. case parse_datetime ps s v of Some t \<Rightarrow> Ts t | None \<Rightarrow> Null) s))"

definition to_numeric :: "parsers \<Rightarrow> cell list \<Rightarrow> error + cell list" where
  "to_numeric ps s =
     (case numeric_error ps s of
        Some e \<Rightarrow> Inl e
      | None \<Rightarrow> Inr (map (\<lambda>v. case parse_numeric ps s v of Some x \<Rightarrow> Num x | None \<Rightarrow> Null) s))"

text \<open>The cell of row \<open>r\<close> under label \<open>c\<close>; a label the row does not have reads as missing.\<close>

definition get_cell :: "string list \<Rightarrow> cell list \<Rightarrow> string \<Rightarrow> cell" where
  "get_cell cols r c = (case map_of (zip cols r) c of Some v \<Rightarrow> v | None \<Rightarrow> Null)"

text \<open>The column under label \<open>c\<close>, as \<open>df[c]\<close> reads it when the label is there.\<close>

definition series :: "dataframe \<Rightarrow> string \<Rightarrow> cell list" where
  "series df c = map (\<lambda>r. get_cell (columns df) r c) (rows df)"

text \<open>\<open>df[c] = s\<close>: row by row, the cell under \<open>c\<close> becomes the entry of \<open>s\<close>.\<close>

definition assign_row :: "string list \<Rightarrow> string \<Rightarrow> cell \<Rightarrow> cell list \<Rightarrow> cell list" where
  "assign_row cols c x r = map (\<lambda>(k, v). if k = c then x else v) (zip cols r)"

definition setitem :: "string \<Rightarrow> cell list \<Rightarrow> dataframe \<Rightarrow> dataframe" where
  "setitem c s df =
     df\<lparr>rows := map (\<lambda>(r, x). assign_row (columns df) c x r) (zip (rows df) s)\<rparr>"

text \<open>\<open>if c in df.columns: df[c] = conv(df[c])\<close>\<close>

definition convert_column ::
  "(cell list \<Rightarrow> error + cell list) \<Rightarrow> string \<Rightarrow> dataframe \<Rightarrow> error + dataframe" where
  "convert_column conv c df =
     (if c \<in> set (columns df)
      then (case conv (series df c) of Inl e \<Rightarrow> Inl e | Inr s \<Rightarrow> Inr (setitem c s df))
      else Inr df)"

text \<open>The \<open>for\<close> loop over the labels; the first exception ends it.\<close>

fun convert_columns ::
  "(cell list \<Rightarrow> error + cell list) \<Rightarrow> string list \<Rightarrow> dataframe \<Rightarrow> error + dataframe" where
  "convert_columns conv [] df = Inr df"
| "convert_columns conv (c # cs) df =
     (case convert_column conv c df of
        Inl e \<Rightarrow> Inl e
      | Inr df' \<Rightarrow> convert_columns conv cs df')"

definition datetime_cols :: "string list" where
  "datetime_cols = [''pickup_datetime'', ''dropoff_datetime'']"

definition num_cols :: "string list" where
  "num_cols = [''passenger_count'', ''trip_distance'', ''fare_amount'', ''tip_amount'', ''total_amount'']"

text \<open>Lines 53 to 60 of \<open>clean_chunk\<close>: the two conversion loops.\<close>

definition conversions :: "parsers \<Rightarrow> dataframe \<Rightarrow> error + dataframe" where
  "conversions ps df0 =
     (case convert_columns (to_datetime ps) datetime_cols df0 of
        Inl e \<Rightarrow> Inl e
      | Inr df1 \<Rightarrow> convert_columns (to_numeric ps) num_cols df1)"

text \<open>
  \<open>df.dropna(subset=..., how='any')\<close>: pandas raises \<open>KeyError\<close> with the labels
  of \<open>subset\<close> that the frame lacks, before it looks at any row.
\<close>

definition dropna :: "string list \<Rightarrow> dataframe \<Rightarrow> error + dataframe" where
  "dropna subs df =
     (if list_ex (\<lambda>c. c \<notin> set (columns df)) subs
      then Inl (KeyError (filter (\<lambda>c. c \<notin> set (columns df)) subs))
      else Inr (df\<lparr>rows :=
              filter (\<lambda>r. list_all (\<lambda>c. get_cell (columns df) r c \<noteq> Null) subs) (rows df)\<rparr>))"

text \<open>\<open>df[c]\<close>: the column as a series, or \<open>KeyError\<close>.\<close>

definition getitem :: "dataframe \<Rightarrow> string \<Rightarrow> error + cell list" where
  "getitem df c = (if c \<in> set (columns df) then Inr (series df c) else Inl (KeyError [c]))"

fun fillna0 :: "cell \<Rightarrow> cell" where
  "fillna0 Null = Num 0"
| "fillna0 v = v"

text \<open>
  \<open>series >= 0\<close>. The three series compared have been through \<open>to_numeric\<close>, so
  after \<open>fillna(0)\<close> they hold numbers only; the other cases cannot occur there.
\<close>

fun ge0 :: "cell \<Rightarrow> bool" where
  "ge0 (Num x) = (0 \<le> x)"
| "ge0 _ = False"

definition nonneg_series :: "cell list \<Rightarrow> bool list" where
  "nonneg_series s = map (\<lambda>v. ge0 (fillna0 v)) s"

definition and_series :: "bool list \<Rightarrow> bool list \<Rightarrow> bool list" where
  "and_series a b = map (\<lambda>(x, y). x \<and> y) (zip a b)"

text \<open>\<open>df[mask]\<close>: the rows whose mask entry is true.\<close>

definition boolean_index :: "dataframe \<Rightarrow> bool list \<Rightarrow> dataframe" where
  "boolean_index df msk = df\<lparr>rows := map fst (filter snd (zip (rows df) msk))\<rparr>"

definition clean_chunk :: "parsers \<Rightarrow> dataframe \<Rightarrow> error + dataframe" where
  "clean_chunk ps df0 =
     (case conversions ps df0 of
        Inl e \<Rightarrow> Inl e
      | Inr df2 \<Rightarrow>
         (case dropna datetime_cols df2 of
            Inl e \<Rightarrow> Inl e
          | Inr df3 \<Rightarrow>
             (case getitem df3 ''fare_amount'' of
                Inl e \<Rightarrow> Inl e
              | Inr fare \<Rightarrow>
                 (case getitem df3 ''trip_distance'' of
                    Inl e \<Rightarrow> Inl e
                  | Inr trip \<Rightarrow>
                     (case getitem df3 ''passenger_count'' of
                        Inl e \<Rightarrow> Inl e
                      | Inr pass \<Rightarrow>
                         Inr (boolean_index df3
                               (and_series (and_series (nonneg_series fare) (nonneg_series trip))
                                  (nonneg_series pass))))))))"

definition required_cols :: "string list" where
  "required_cols = [''pickup_datetime'', ''dropoff_datetime'', ''fare_amount'',
                    ''trip_distance'', ''passenger_count'']"

section \<open>The destination store and the process output\<close>

text \<open>
  A row as the \<open>INSERT\<close> statement of \<open>chunk_and_insert\<close> writes it: the
  statement's column names, each with its value.
\<close>

type_synonym sqlrow = "(string \<times> cell) list"

text \<open>What the database driver was asked to do, in order.\<close>

datatype event =
    Connected
  | Executed "sqlrow list"
  | ExecuteFailed "sqlrow list"
  | Committed "sqlrow list"
  | CommitFailed
  | RolledBack
  | RollbackFailed
  | Closed

text \<open>The lines the script prints (times, rates and memory figures left out).\<close>

datatype line =
    SkipLine nat nat
  | InsertErrorLine nat
  | ChunkLine nat nat nat nat
  | TotalLine nat
  | ConnectErrorLine
  | VerifyLine nat
  | SampleLine "(int \<times> rat) list"
  | DownloadingLine
  | DownloadCompleteLine

text \<open>
  The world outside the process: \<open>table\<close> holds the committed rows of the
  destination table, \<open>pending\<close> the rows the connection in use has written
  and not yet committed, \<open>open_conns\<close> counts the connections opened and not
  closed, \<open>staged\<close> says whether the temporary CSV file exists.
\<close>

record world =
  table :: "sqlrow list"
  pending :: "sqlrow list"
  open_conns :: nat
  events :: "event list"
  out :: "line list"
  staged :: bool

text \<open>
  The answers of the database server, the file system and the network. Each
  may depend on the whole world, history included, so any schedule of
  failures is an \<open>env\<close>.
\<close>

record env =
  connect_ok :: "world \<Rightarrow> bool"
  execute_ok :: "world \<Rightarrow> sqlrow list \<Rightarrow> bool"
  commit_ok :: "world \<Rightarrow> bool"
  rollback_ok :: "world \<Rightarrow> bool"
  count_query_ok :: "world \<Rightarrow> bool"
  aggregate_query_ok :: "world \<Rightarrow> bool"
  avg_fare_by_hour :: "sqlrow list \<Rightarrow> (int \<times> rat) list"
  download_ok :: "world \<Rightarrow> string \<Rightarrow> bool"
  read_csv :: "world \<Rightarrow> string option \<Rightarrow> int \<Rightarrow> error + dataframe list"

definition say :: "line \<Rightarrow> world \<Rightarrow> world" where
  "say l w = w\<lparr>out := out w @ [l]\<rparr>"

definition note_event :: "event \<Rightarrow> world \<Rightarrow> world" where
  "note_event e w = w\<lparr>events := events w @ [e]\<rparr>"

text \<open>
  \<open>engine.raw_connection()\<close> and \<open>mysql.connector.connect\<close>: a new connection,
  with a transaction of its own that has written nothing yet.
\<close>

definition connect :: "env \<Rightarrow> world \<Rightarrow> (error + unit) \<times> world" where
  "connect ev w =
     (if connect_ok ev w
      then (Inr (), note_event Connected (w\<lparr>pending := [], open_conns := Suc (open_conns w)\<rparr>))
      else (Inl DatabaseError, w))"

text \<open>
  \<open>cursor.executemany(sql, values)\<close>: the driver sends one multi-row \<open>INSERT\<close>,
  which writes all its rows into the open transaction or none.
\<close>

definition executemany :: "env \<Rightarrow> sqlrow list \<Rightarrow> world \<Rightarrow> (error + unit) \<times> world" where
  "executemany ev vals w =
     (if execute_ok ev w vals
      then (Inr (), note_event (Executed vals) (w\<lparr>pending := pending w @ vals\<rparr>))
      else (Inl DatabaseError, note_event (ExecuteFailed vals) w))"

definition commit :: "env \<Rightarrow> world \<Rightarrow> (error + unit) \<times> world" where
  "commit ev w =
     (if commit_ok ev w
      then (Inr (), note_event (Committed (pending w))
                      (w\<lparr>table := table w @ pending w, pending := []\<rparr>))
      else (Inl DatabaseError, note_event CommitFailed w))"

text \<open>\<open>try: conn.rollback() except: pass\<close>: a failing rollback is swallowed.\<close>

definition rollback :: "env \<Rightarrow> world \<Rightarrow> world" where
  "rollback ev w =
     (if rollback_ok ev w then note_event RolledBack (w\<lparr>pending := []\<rparr>)
      else note_event RollbackFailed w)"

text \<open>\<open>cursor.close(); conn.close()\<close>: what was not committed is discarded.\<close>

definition close :: "world \<Rightarrow> world" where
  "close w = note_event Closed (w\<lparr>pending := [], open_conns := open_conns w - 1\<rparr>)"

section \<open>The schema mapper (lines 80 to 97 of \<open>chunk_and_insert\<close>)\<close>

definition col_map :: "string list \<Rightarrow> (string \<times> string) list" where
  "col_map cols =
     (if ''lpep_pickup_datetime'' \<in> set cols
      then [(''lpep_pickup_datetime'', ''pickup_datetime'')] else []) @
     (if ''lpep_dropoff_datetime'' \<in> set cols
      then [(''lpep_dropoff_datetime'', ''dropoff_datetime'')] else []) @
     (if ''PULocationID'' \<in> set cols
      then [(''PULocationID'', ''PULocationID'')] else [])"

text \<open>\<open>df.rename(columns=m)\<close>: labels that are not keys of \<open>m\<close> stay.\<close>

definition rename :: "(string \<times> string) list \<Rightarrow> dataframe \<Rightarrow> dataframe" where
  "rename m df =
     df\<lparr>columns := map (\<lambda>c. case map_of m c of Some c' \<Rightarrow> c' | None \<Rightarrow> c) (columns df)\<rparr>"

definition allowed :: "string list" where
  "allowed = [''vendorid'', ''vendor_id'', ''pickup_datetime'', ''dropoff_datetime'',
              ''passenger_count'', ''trip_distance'', ''rate_code'', ''store_and_fwd_flag'',
              ''PULocationID'', ''DOLocationID'', ''payment_type'', ''fare_amount'', ''extra'',
              ''mta_tax'', ''tip_amount'', ''tolls_amount'', ''total_amount'']"

definition present :: "dataframe \<Rightarrow> string list" where
  "present df = filter (\<lambda>c. c \<in> set allowed) (columns df)"

text \<open>
  \<open>chunk[keys]\<close> with a list of labels: for each label in turn, every column
  that carries it (one column each when the labels of the frame differ).
\<close>

definition select_columns :: "string list \<Rightarrow> dataframe \<Rightarrow> dataframe" where
  "select_columns ks df =
     \<lparr>columns = concat (map (\<lambda>k. filter (\<lambda>c. c = k) (columns df)) ks),
      rows = map (\<lambda>r. concat (map (\<lambda>k. map snd (filter (\<lambda>(c, v). c = k) (zip (columns df) r))) ks))
               (rows df)\<rparr>"

definition vendor_map :: "(string \<times> string) list" where
  "vendor_map = [(''vendorid'', ''vendor_id''), (''vendor'', ''vendor_id''),
                 (''VendorID'', ''vendor_id'')]"

definition schema_mapper :: "dataframe \<Rightarrow> dataframe" where
  "schema_mapper chunk =
     (let chunk1 = rename (col_map (columns chunk)) chunk;
          df = select_columns (present chunk1) chunk1
      in rename vendor_map df)"

section \<open>The batch loader (lines 97 to 127 of \<open>chunk_and_insert\<close>)\<close>

text \<open>
  \<open>df.to_dict(orient='records')\<close>: one dictionary per row, here the list of its
  items in column order; \<open>r.get(k, None)\<close> reads the last item under \<open>k\<close>, as
  a later item of a Python dictionary replaces an earlier one with its key.
\<close>

definition to_dict :: "dataframe \<Rightarrow> (string \<times> cell) list list" where
  "to_dict df = map (\<lambda>r. zip (columns df) r) (rows df)"

definition dict_get :: "(string \<times> cell) list \<Rightarrow> string \<Rightarrow> cell" where
  "dict_get r k = (case map_of (rev r) k of Some v \<Rightarrow> v | None \<Rightarrow> Null)"

definition values_of :: "string list \<Rightarrow> (string \<times> cell) list list \<Rightarrow> sqlrow list" where
  "values_of keys batch = map (\<lambda>r. zip keys (map (dict_get r) keys)) batch"

text \<open>
  \<open>range(0, n, step)\<close>: Python raises \<open>ValueError\<close> for a zero step, and the
  range is empty for a negative one.
\<close>

definition range_step :: "nat \<Rightarrow> int \<Rightarrow> error + nat list" where
  "range_step n step =
     (if step = 0 then Inl ValueError
      else if step < 0 then Inr []
      else Inr (map (\<lambda>k. k * nat step) [0 ..< (n + nat step - 1) div nat step]))"

text \<open>
  One turn of the \<open>for j in range(...)\<close> loop: the sub-batch that starts at
  \<open>j\<close> is sent and committed. Returns \<open>len(batch)\<close>, or the exception raised.
\<close>

definition insert_batch ::
  "env \<Rightarrow> string list \<Rightarrow> (string \<times> cell) list list \<Rightarrow> nat \<Rightarrow> nat \<Rightarrow> world
     \<Rightarrow> (error + nat) \<times> world" where
  "insert_batch ev keys records b j w =
     (let batch = take b (drop j records);
          vals = values_of keys batch
      in case executemany ev vals w of
           (Inl e, w1) \<Rightarrow> (Inl e, w1)
         | (Inr _, w1) \<Rightarrow>
            (case commit ev w1 of
               (Inl e, w2) \<Rightarrow> (Inl e, w2)
             | (Inr _, w2) \<Rightarrow> (Inr (length batch), w2)))"

text \<open>
  The loop over the start indices still to do. The first exception leaves
  the loop; the count of rows inserted so far is kept.
\<close>

fun insert_batches ::
  "env \<Rightarrow> string list \<Rightarrow> (string \<times> cell) list list \<Rightarrow> nat \<Rightarrow> nat list \<Rightarrow> nat \<Rightarrow> world
     \<Rightarrow> (error + unit) \<times> nat \<times> world" where
  "insert_batches ev keys records b [] inserted w = (Inr (), inserted, w)"
| "insert_batches ev keys records b (j # js) inserted w =
     (case insert_batch ev keys records b j w of
        (Inl e, w1) \<Rightarrow> (Inl e, inserted, w1)
      | (Inr n, w1) \<Rightarrow> insert_batches ev keys records b js (inserted + n) w1)"

text \<open>
  The \<open>try\<close> statement with its handler: the connection is closed only when
  the loop ends without an exception; the handler prints the error and rolls
  back. Returns the chunk's \<open>inserted\<close>.
\<close>

definition try_insert ::
  "env \<Rightarrow> nat \<Rightarrow> string list \<Rightarrow> (string \<times> cell) list list \<Rightarrow> int \<Rightarrow> world \<Rightarrow> nat \<times> world" where
  "try_insert ev i keys records batch_size w =
     (case range_step (length records) batch_size of
        Inl e \<Rightarrow> (0, rollback ev (say (InsertErrorLine i) w))
      | Inr js \<Rightarrow>
         (case insert_batches ev keys records (nat batch_size) js 0 w of
            (Inr _, inserted, w1) \<Rightarrow> (inserted, close w1)
          | (Inl e, inserted, w1) \<Rightarrow> (inserted, rollback ev (say (InsertErrorLine i) w1))))"

text \<open>
  One chunk after cleaning found it non-empty: map it to the schema, open a
  connection (an exception here is outside the \<open>try\<close> and ends the run),
  insert. Returns the chunk's \<open>inserted\<close>.
\<close>

definition load_chunk ::
  "env \<Rightarrow> nat \<Rightarrow> dataframe \<Rightarrow> int \<Rightarrow> world \<Rightarrow> (error + nat) \<times> world" where
  "load_chunk ev i chunk batch_size w =
     (let df = schema_mapper chunk;
          records = to_dict df
      in case connect ev w of
           (Inl e, w0) \<Rightarrow> (Inl e, w0)
         | (Inr _, w0) \<Rightarrow>
            (case try_insert ev i (columns df) records batch_size w0 of
               (inserted, w1) \<Rightarrow> (Inr inserted, w1)))"

text \<open>
  The \<open>for i, chunk in enumerate(...)\<close> loop, from chunk number \<open>i\<close> on with
  \<open>total_rows\<close> so far. An exception of \<open>clean_chunk\<close> is not caught.
\<close>

fun chunk_loop ::
  "parsers \<Rightarrow> env \<Rightarrow> int \<Rightarrow> dataframe list \<Rightarrow> nat \<Rightarrow> nat \<Rightarrow> world \<Rightarrow> (error + nat) \<times> world" where
  "chunk_loop ps ev batch_size [] i total_rows w = (Inr total_rows, w)"
| "chunk_loop ps ev batch_size (chunk0 # rest) i total_rows w =
     (let original_len = length (rows chunk0) in
      case clean_chunk ps chunk0 of
        Inl e \<Rightarrow> (Inl e, w)
      | Inr chunk \<Rightarrow>
         (let cleaned_len = length (rows chunk) in
          if cleaned_len = 0
          then chunk_loop ps ev batch_size rest (Suc i) total_rows (say (SkipLine i original_len) w)
          else (case load_chunk ev i chunk batch_size w of
                  (Inl e, w1) \<Rightarrow> (Inl e, w1)
                | (Inr inserted, w1) \<Rightarrow>
                    chunk_loop ps ev batch_size rest (Suc i) (total_rows + inserted)
                      (say (ChunkLine i original_len cleaned_len inserted) w1))))"

text \<open>
  \<open>chunk_and_insert\<close>, given the chunks that \<open>pd.read_csv\<close> yields for the file.
\<close>

definition chunk_and_insert ::
  "parsers \<Rightarrow> env \<Rightarrow> dataframe list \<Rightarrow> int \<Rightarrow> world \<Rightarrow> (error + nat) \<times> world" where
  "chunk_and_insert ps ev chunks batch_size w =
     (case chunk_loop ps ev batch_size chunks 0 0 w of
        (Inl e, w1) \<Rightarrow> (Inl e, w1)
      | (Inr total_rows, w1) \<Rightarrow> (Inr total_rows, say (TotalLine total_rows) w1))"

section \<open>The verifier and \<open>main\<close>\<close>



record args =
  url :: string
  chunksize :: int
  batch_size :: int
  no_download :: bool
  file_path :: "string option"







text \<open>The batches that the history says were committed.\<close>

fun committed :: "event list \<Rightarrow> sqlrow list list" where
  "committed [] = []"
| "committed (Committed b # es) = b # committed es"
| "committed (e # es) = committed es"

text \<open>The batches that the history says were sent to the store, accepted or not.\<close>

fun attempted :: "event list \<Rightarrow> sqlrow list list" where
  "attempted [] = []"
| "attempted (Executed b # es) = b # attempted es"
| "attempted (ExecuteFailed b # es) = b # attempted es"
| "attempted (e # es) = attempted es"

section \<open>Concrete inputs\<close>

text \<open>
  Parsers for the examples: the four timestamps of the scenario parse, any
  other string does not; a number reads as itself and nothing else is numeric.
\<close>

definition iso_parsers :: parsers where
  "iso_parsers =
     \<lparr>parse_datetime = (\<lambda>s v. case v of
          Str x \<Rightarrow> map_of [(''2021-01-01T00:00'', 1609459200000000000),
                            (''2021-01-01T00:10'', 1609459800000000000),
                            (''2021-01-01T01:00'', 1609462800000000000),
                            (''2021-01-01T01:05'', 1609463100000000000)] x
        | Ts t \<Rightarrow> Some t
        | _ \<Rightarrow> None),
      datetime_error = (\<lambda>s. None),
      parse_numeric = (\<lambda>s v. case v of Num x \<Rightarrow> Some x | _ \<Rightarrow> None),
      numeric_error = (\<lambda>s. None)\<rparr>"



text \<open>The three rows of the scenario, with the columns the scenario names.\<close>

definition scenario_rows :: "cell list list" where
  "scenario_rows =
     [[Num (-5), Num 2, Str ''2021-01-01T00:00'', Str ''2021-01-01T00:10''],
      [Num 10, Num 3, Str ''bad-date'', Str ''2021-01-01T00:10''],
      [Num 12, Num 1, Str ''2021-01-01T01:00'', Str ''2021-01-01T01:05'']]"

definition scenario_chunk_as_written :: dataframe where
  "scenario_chunk_as_written =
     \<lparr>columns = [''fare_amount'', ''trip_distance'', ''pickup'', ''dropoff''],
      rows = scenario_rows\<rparr>"

definition scenario_chunk :: dataframe where
  "scenario_chunk =
     \<lparr>columns = [''fare_amount'', ''trip_distance'', ''pickup_datetime'', ''dropoff_datetime''],
      rows = scenario_rows\<rparr>"

text \<open>The same chunk with a \<open>passenger_count\<close> column holding the three given cells.\<close>

definition scenario_chunk_with :: "cell \<Rightarrow> cell \<Rightarrow> cell \<Rightarrow> dataframe" where
  "scenario_chunk_with p1 p2 p3 =
     \<lparr>columns = columns scenario_chunk @ [''passenger_count''],
      rows = map (\<lambda>(r, p). r @ [p]) (zip scenario_rows [p1, p2, p3])\<rparr>"

text \<open>What cleaning leaves of that chunk, and the row that is then inserted.\<close>

definition scenario_cleaned :: "cell \<Rightarrow> dataframe" where
  "scenario_cleaned p3 =
     \<lparr>columns = [''fare_amount'', ''trip_distance'', ''pickup_datetime'', ''dropoff_datetime'',
                 ''passenger_count''],
      rows = [[Num 12, Num 1, Ts 1609462800000000000, Ts 1609463100000000000, p3]]\<rparr>"

definition scenario_third_row :: "cell \<Rightarrow> sqlrow" where
  "scenario_third_row p3 =
     [(''fare_amount'', Num 12), (''trip_distance'', Num 1),
      (''pickup_datetime'', Ts 1609462800000000000),
      (''dropoff_datetime'', Ts 1609463100000000000), (''passenger_count'', p3)]"

definition empty_world :: world where
  "empty_world = \<lparr>table = [], pending = [], open_conns = 0, events = [], out = [], staged = False\<rparr>"

text \<open>A store that accepts everything, over a source that holds \<open>chunks\<close>.\<close>

definition accepting_env :: "dataframe list \<Rightarrow> env" where
  "accepting_env chunks =
     \<lparr>connect_ok = (\<lambda>w. True), execute_ok = (\<lambda>w vals. True), commit_ok = (\<lambda>w. True),
      rollback_ok = (\<lambda>w. True), count_query_ok = (\<lambda>w. True),
      aggregate_query_ok = (\<lambda>w. True), avg_fare_by_hour = (\<lambda>t. []),
      download_ok = (\<lambda>w u. True), read_csv = (\<lambda>w p n. Inr chunks)\<rparr>"

text \<open>A store with the constraint that no row has a fare of 7.\<close>

definition fare7_env :: "dataframe list \<Rightarrow> env" where
  "fare7_env chunks =
     (accepting_env chunks)
       \<lparr>execute_ok := (\<lambda>w vals. \<not> list_ex (\<lambda>r. (''fare_amount'', Num 7) \<in> set r) vals)\<rparr>"


text \<open>A chunk of three trips, with fares of 9, 7 and 12, and the rows they become.\<close>

definition three_trips :: dataframe where
  "three_trips =
     \<lparr>columns = [''pickup_datetime'', ''dropoff_datetime'', ''passenger_count'',
                 ''trip_distance'', ''fare_amount''],
      rows = [[Str ''2021-01-01T00:00'', Str ''2021-01-01T00:10'', Num 1, Num 2, Num 9],
              [Str ''2021-01-01T00:00'', Str ''2021-01-01T00:10'', Num 1, Num 2, Num 7],
              [Str ''2021-01-01T01:00'', Str ''2021-01-01T01:05'', Num 1, Num 1, Num 12]]\<rparr>"

definition trip_9 :: sqlrow where
  "trip_9 = [(''pickup_datetime'', Ts 1609459200000000000),
             (''dropoff_datetime'', Ts 1609459800000000000),
             (''passenger_count'', Num 1), (''trip_distance'', Num 2), (''fare_amount'', Num 9)]"

definition trip_7 :: sqlrow where
  "trip_7 = [(''pickup_datetime'', Ts 1609459200000000000),
             (''dropoff_datetime'', Ts 1609459800000000000),
             (''passenger_count'', Num 1), (''trip_distance'', Num 2), (''fare_amount'', Num 7)]"

definition trip_12 :: sqlrow where
  "trip_12 = [(''pickup_datetime'', Ts 1609462800000000000),
              (''dropoff_datetime'', Ts 1609463100000000000),
              (''passenger_count'', Num 1), (''trip_distance'', Num 1), (''fare_amount'', Num 12)]"

text \<open>A trip with a negative tip and a negative total.\<close>

definition refund_trip :: dataframe where
  "refund_trip =
     \<lparr>columns = [''pickup_datetime'', ''dropoff_datetime'', ''passenger_count'',
                 ''trip_distance'', ''fare_amount'', ''tip_amount'', ''total_amount''],
      rows = [[Str ''2021-01-01T00:00'', Str ''2021-01-01T00:10'', Num 1, Num 2, Num 0,
               Num (-3), Num (-3)]]\<rparr>"

text \<open>A chunk whose only row has an unparseable pickup time.\<close>

definition bad_date_trip :: dataframe where
  "bad_date_trip =
     \<lparr>columns = [''pickup_datetime'', ''dropoff_datetime'', ''passenger_count'',
                 ''trip_distance'', ''fare_amount''],
      rows = [[Str ''bad-date'', Str ''2021-01-01T00:10'', Num 1, Num 2, Num 9]]\<rparr>"

text \<open>A trip as the green-taxi files label it: \<open>VendorID\<close>, and the canonical names otherwise.\<close>

definition vendor_trip :: dataframe where
  "vendor_trip =
     \<lparr>columns = [''VendorID'', ''pickup_datetime'', ''dropoff_datetime'', ''passenger_count'',
                 ''trip_distance'', ''fare_amount''],
      rows = [[Num 2, Ts 1609459200000000000, Ts 1609459800000000000, Num 1, Num 2, Num 9]]\<rparr>"




definition refund_row :: "cell list" where
  "refund_row = [Ts 1609459200000000000, Ts 1609459800000000000, Num 1, Num 2, Num 0,
                 Num (-3), Num (-3)]"

section \<open>Predicates of the specification\<close>

fun is_timestamp :: "cell \<Rightarrow> bool" where
  "is_timestamp (Ts t) = True"
| "is_timestamp _ = False"

fun missing_or_number :: "cell \<Rightarrow> bool" where
  "missing_or_number Null = True"
| "missing_or_number (Num x) = True"
| "missing_or_number _ = False"

fun missing_or_nonneg :: "cell \<Rightarrow> bool" where
  "missing_or_nonneg Null = True"
| "missing_or_nonneg (Num x) = (0 \<le> x)"
| "missing_or_nonneg _ = False"

section \<open>Worlds that the example runs pass through\<close>

definition three_trips_cleaned :: dataframe where
  "three_trips_cleaned = three_trips\<lparr>rows :=
       [[Ts 1609459200000000000, Ts 1609459800000000000, Num 1, Num 2, Num 9],
        [Ts 1609459200000000000, Ts 1609459800000000000, Num 1, Num 2, Num 7],
        [Ts 1609462800000000000, Ts 1609463100000000000, Num 1, Num 1, Num 12]]\<rparr>"

text \<open>After the connection for the first chunk is open.\<close>

definition connected_world :: world where
  "connected_world = empty_world\<lparr>open_conns := 1, events := [Connected]\<rparr>"

text \<open>After the first sub-batch of \<open>three_trips\<close> is committed.\<close>

definition committed_world :: world where
  "committed_world =
     connected_world\<lparr>table := [trip_9],
                      events := [Connected, Executed [trip_9], Committed [trip_9]]\<rparr>"

text \<open>After the store has refused the second sub-batch.\<close>

definition rejected_world :: world where
  "rejected_world =
     committed_world\<lparr>events := [Connected, Executed [trip_9], Committed [trip_9],
                                  ExecuteFailed [trip_7]]\<rparr>"

text \<open>At the end of the run over \<open>three_trips\<close> against \<open>fare7_env\<close>, sub-batches of one row.\<close>

definition failed_world :: world where
  "failed_world =
     \<lparr>table = [trip_9], pending = [], open_conns = 1,
      events = [Connected, Executed [trip_9], Committed [trip_9], ExecuteFailed [trip_7],
                RolledBack],
      out = [InsertErrorLine 0, ChunkLine 0 3 3 1, TotalLine 1], staged = False\<rparr>"

text \<open>At the end of the same run over two such chunks.\<close>

definition leaked_world :: world where
  "leaked_world =
     \<lparr>table = [trip_9, trip_9], pending = [], open_conns = 2,
      events = [Connected, Executed [trip_9], Committed [trip_9], ExecuteFailed [trip_7],
                RolledBack,
                Connected, Executed [trip_9], Committed [trip_9], ExecuteFailed [trip_7],
                RolledBack],
      out = [InsertErrorLine 0, ChunkLine 0 3 3 1, InsertErrorLine 1, ChunkLine 1 3 3 1,
             TotalLine 2],
      staged = False\<rparr>"

text \<open>After \<open>three_trips\<close> went into a store that accepts everything, in one sub-batch.\<close>

definition loaded_world :: world where
  "loaded_world =
     \<lparr>table = [trip_9, trip_7, trip_12], pending = [], open_conns = 0,
      events = [Connected, Executed [trip_9, trip_7, trip_12],
                Committed [trip_9, trip_7, trip_12], Closed],
      out = [ChunkLine 0 3 3 3, TotalLine 3], staged = False\<rparr>"

text \<open>After the verifier has then opened and closed its connection.\<close>

definition aborted_world :: world where
  "aborted_world =
     loaded_world\<lparr>events := [Connected, Executed [trip_9, trip_7, trip_12],
                               Committed [trip_9, trip_7, trip_12], Closed, Connected, Closed]\<rparr>"



section \<open>Properties of the cleaner\<close>

lemma columns_setitem [simp]: "columns (setitem c s df) = columns df"
  by (simp add: setitem_def)

lemma length_rows_setitem: "length (rows (setitem c s df)) \<le> length (rows df)"
  by (simp add: setitem_def)

lemma convert_column_Inr:
  assumes "convert_column conv c df = Inr df'"
  shows "columns df' = columns df \<and> length (rows df') \<le> length (rows df)"
proof (cases "c \<in> set (columns df)")
  case True
  with assms obtain s where "df' = setitem c s df"
    by (auto simp: convert_column_def split: sum.splits)
  then show ?thesis by (simp add: length_rows_setitem)
next
  case False
  with assms show ?thesis by (simp add: convert_column_def)
qed

lemma convert_columns_Inr:
  "convert_columns conv cs df = Inr df' \<Longrightarrow>
     columns df' = columns df \<and> length (rows df') \<le> length (rows df)"
proof (induction cs arbitrary: df)
  case Nil
  then show ?case by simp
next
  case (Cons c cs)
  from Cons.prems obtain df1 where 1: "convert_column conv c df = Inr df1"
    and 2: "convert_columns conv cs df1 = Inr df'"
    by (auto split: sum.splits)
  from convert_column_Inr [OF 1] Cons.IH [OF 2] show ?case by simp
qed

lemma conversions_Inr:
  assumes "conversions ps df = Inr df2"
  shows "columns df2 = columns df \<and> length (rows df2) \<le> length (rows df)"
proof -
  from assms obtain df1 where 1: "convert_columns (to_datetime ps) datetime_cols df = Inr df1"
    and 2: "convert_columns (to_numeric ps) num_cols df1 = Inr df2"
    by (auto simp: conversions_def split: sum.splits)
  from convert_columns_Inr [OF 1] convert_columns_Inr [OF 2] show ?thesis by simp
qed

lemma dropna_Inr:
  "dropna subs df = Inr df' \<Longrightarrow>
     columns df' = columns df \<and> set subs \<subseteq> set (columns df) \<and>
     rows df' = filter (\<lambda>r. list_all (\<lambda>c. get_cell (columns df) r c \<noteq> Null) subs) (rows df)"
  by (auto simp: dropna_def list_ex_iff split: if_splits)

lemma getitem_Inr:
  "getitem df c = Inr s \<Longrightarrow> c \<in> set (columns df) \<and> s = series df c"
  by (auto simp: getitem_def split: if_splits)

lemma length_boolean_index: "length (rows (boolean_index df msk)) \<le> length (rows df)"
proof -
  have "length (filter snd (zip (rows df) msk)) \<le> length (zip (rows df) msk)"
    by (rule length_filter_le)
  then show ?thesis by (simp add: boolean_index_def)
qed

lemma clean_chunk_Inr:
  assumes "clean_chunk ps df0 = Inr df'"
  obtains df2 df3 where
    "conversions ps df0 = Inr df2"
    "dropna datetime_cols df2 = Inr df3"
    "''fare_amount'' \<in> set (columns df3)"
    "''trip_distance'' \<in> set (columns df3)"
    "''passenger_count'' \<in> set (columns df3)"
    "df' = boolean_index df3
            (and_series (and_series
               (nonneg_series (series df3 ''fare_amount''))
               (nonneg_series (series df3 ''trip_distance'')))
               (nonneg_series (series df3 ''passenger_count'')))"
  using assms
  by (auto simp: clean_chunk_def dest!: getitem_Inr split: sum.splits)

text \<open>
  Claim C8. Whenever cleaning returns a chunk, that chunk has at most as many
  rows as the chunk that was read: cleaning only drops rows.
\<close>

theorem clean_chunk_count_le:
  assumes "clean_chunk ps df = Inr df'"
  shows "length (rows df') \<le> length (rows df)"
proof -
  from assms obtain df2 df3 msk where
    df2: "conversions ps df = Inr df2"
    and d: "dropna datetime_cols df2 = Inr df3"
    and r: "df' = boolean_index df3 msk"
    by (rule clean_chunk_Inr)
  have "length (rows df') \<le> length (rows df3)"
    unfolding r by (rule length_boolean_index)
  also have "\<dots> \<le> length (rows df2)"
    using dropna_Inr [OF d] by simp
  also have "\<dots> \<le> length (rows df)"
    using conversions_Inr [OF df2] by simp
  finally show ?thesis .
qed

lemma map_of_zip_assign_row:
  "map_of (zip cols (assign_row cols c x r)) k =
     map_option (\<lambda>v. if k = c then x else v) (map_of (zip cols r) k)"
proof (induction cols arbitrary: r)
  case Nil
  then show ?case by (simp add: assign_row_def)
next
  case (Cons a cols)
  then show ?case
    by (cases r) (auto simp: assign_row_def)
qed

lemma get_cell_assign_row:
  "get_cell cols (assign_row cols c x r) k =
     (if k = c \<and> map_of (zip cols r) k \<noteq> None then x else get_cell cols r k)"
  by (auto simp: get_cell_def map_of_zip_assign_row split: option.splits)

lemma get_cell_absent: "map_of (zip cols r) c = None \<Longrightarrow> get_cell cols r c = Null"
  by (simp add: get_cell_def)

lemma get_cell_no_column: "c \<notin> set cols \<Longrightarrow> get_cell cols r c = Null"
proof -
  assume "c \<notin> set cols"
  then have "c \<notin> fst ` set (zip cols r)" by (auto dest: set_zip_leftD)
  then have "map_of (zip cols r) c = None" by (simp add: map_of_eq_None_iff)
  then show ?thesis by (rule get_cell_absent)
qed

text \<open>A row after \<open>df[c] = s\<close> is a row of before with an entry of \<open>s\<close> under \<open>c\<close>.\<close>

lemma rows_setitem:
  assumes "r' \<in> set (rows (setitem c s df))"
  shows "\<exists>r\<in>set (rows df). \<exists>x\<in>set s. r' = assign_row (columns df) c x r"
proof -
  from assms obtain r x where "(r, x) \<in> set (zip (rows df) s)"
    and r': "r' = assign_row (columns df) c x r"
    by (auto simp: setitem_def)
  then have "r \<in> set (rows df)" "x \<in> set s"
    by (auto dest: set_zip_leftD set_zip_rightD)
  with r' show ?thesis by blast
qed

lemma rows_convert_column:
  assumes "convert_column conv c' df = Inr df'" and "r' \<in> set (rows df')"
  shows "r' \<in> set (rows df) \<or>
         (\<exists>s r x. conv (series df c') = Inr s \<and> r \<in> set (rows df) \<and> x \<in> set s \<and>
                  r' = assign_row (columns df) c' x r)"
proof (cases "c' \<in> set (columns df)")
  case True
  with assms(1) obtain s where s: "conv (series df c') = Inr s" and df': "df' = setitem c' s df"
    by (auto simp: convert_column_def split: sum.splits)
  from rows_setitem [of r' c' s df] assms(2) df' s show ?thesis by blast
next
  case False
  with assms show ?thesis by (simp add: convert_column_def)
qed

lemma convert_preserves_other:
  assumes "c \<noteq> c'" and "convert_column conv c' df = Inr df'"
    and "\<forall>r\<in>set (rows df). P (get_cell (columns df) r c)"
  shows "\<forall>r\<in>set (rows df'). P (get_cell (columns df) r c)"
proof
  fix r' assume "r' \<in> set (rows df')"
  from rows_convert_column [OF assms(2) this]
  obtain r where "r \<in> set (rows df)" "get_cell (columns df) r' c = get_cell (columns df) r c"
    using assms(1) by (auto simp: get_cell_assign_row)
  with assms(3) show "P (get_cell (columns df) r' c)" by simp
qed

lemma convert_closed:
  assumes "\<And>s s' v. conv s = Inr s' \<Longrightarrow> v \<in> set s' \<Longrightarrow> P v"
    and "convert_column conv c' df = Inr df'"
    and "\<forall>r\<in>set (rows df). P (get_cell (columns df) r c)"
  shows "\<forall>r\<in>set (rows df'). P (get_cell (columns df) r c)"
proof
  fix r' assume "r' \<in> set (rows df')"
  from rows_convert_column [OF assms(2) this]
  show "P (get_cell (columns df) r' c)"
  proof
    assume "r' \<in> set (rows df)"
    with assms(3) show ?thesis by simp
  next
    assume "\<exists>s r x. conv (series df c') = Inr s \<and> r \<in> set (rows df) \<and> x \<in> set s \<and>
                  r' = assign_row (columns df) c' x r"
    then obtain s r x where s: "conv (series df c') = Inr s" and r: "r \<in> set (rows df)"
      and x: "x \<in> set s" and r': "r' = assign_row (columns df) c' x r" by blast
    have "P x" by (rule assms(1) [OF s x])
    moreover have "P (get_cell (columns df) r c)" using assms(3) r by simp
    ultimately show ?thesis by (simp add: r' get_cell_assign_row)
  qed
qed

lemma convert_establishes:
  assumes "\<And>s s' v. conv s = Inr s' \<Longrightarrow> v \<in> set s' \<Longrightarrow> P v" and "P Null"
    and "convert_column conv c df = Inr df'"
  shows "\<forall>r\<in>set (rows df'). P (get_cell (columns df) r c)"
proof (cases "c \<in> set (columns df)")
  case False
  with assms(2) show ?thesis by (simp add: get_cell_no_column)
next
  case True
  with assms(3) obtain s where s: "conv (series df c) = Inr s" and df': "df' = setitem c s df"
    by (auto simp: convert_column_def split: sum.splits)
  show ?thesis
  proof
    fix r' assume "r' \<in> set (rows df')"
    with df' rows_setitem [of r' c s df] obtain r x where x: "x \<in> set s"
      and r': "r' = assign_row (columns df) c x r" by blast
    have "P x" by (rule assms(1) [OF s x])
    with assms(2) show "P (get_cell (columns df) r' c)"
      by (auto simp: r' get_cell_assign_row get_cell_absent)
  qed
qed

lemma convert_columns_closed:
  assumes "\<And>s s' v. conv s = Inr s' \<Longrightarrow> v \<in> set s' \<Longrightarrow> P v"
    and "convert_columns conv cs df = Inr df'"
    and "\<forall>r\<in>set (rows df). P (get_cell (columns df) r c)"
  shows "\<forall>r\<in>set (rows df'). P (get_cell (columns df) r c)"
  using assms(2,3)
proof (induction cs arbitrary: df)
  case Nil
  then show ?case by simp
next
  case (Cons a cs)
  from Cons.prems(1) obtain df1 where 1: "convert_column conv a df = Inr df1"
    and 2: "convert_columns conv cs df1 = Inr df'"
    by (auto split: sum.splits)
  have c1: "columns df1 = columns df" using convert_column_Inr [OF 1] by simp
  have "\<forall>r\<in>set (rows df1). P (get_cell (columns df1) r c)"
    using convert_closed [of conv P, OF assms(1) 1 Cons.prems(2)] by (simp add: c1)
  from Cons.IH [OF 2 this] show ?case by (simp add: c1)
qed

lemma convert_columns_preserves_other:
  assumes "c \<notin> set cs" and "convert_columns conv cs df = Inr df'"
    and "\<forall>r\<in>set (rows df). P (get_cell (columns df) r c)"
  shows "\<forall>r\<in>set (rows df'). P (get_cell (columns df) r c)"
  using assms
proof (induction cs arbitrary: df)
  case Nil
  then show ?case by simp
next
  case (Cons a cs)
  from Cons.prems(1) have "c \<noteq> a" "c \<notin> set cs" by auto
  from Cons.prems(2) obtain df1 where 1: "convert_column conv a df = Inr df1"
    and 2: "convert_columns conv cs df1 = Inr df'"
    by (auto split: sum.splits)
  have c1: "columns df1 = columns df" using convert_column_Inr [OF 1] by simp
  have "\<forall>r\<in>set (rows df1). P (get_cell (columns df1) r c)"
    using convert_preserves_other [OF \<open>c \<noteq> a\<close> 1 Cons.prems(3)] by (simp add: c1)
  from Cons.IH [OF \<open>c \<notin> set cs\<close> 2 this] show ?case by (simp add: c1)
qed

lemma convert_columns_establishes:
  assumes "\<And>s s' v. conv s = Inr s' \<Longrightarrow> v \<in> set s' \<Longrightarrow> P v" and "P Null"
    and "c \<in> set cs" and "convert_columns conv cs df = Inr df'"
  shows "\<forall>r\<in>set (rows df'). P (get_cell (columns df) r c)"
  using assms(3,4)
proof (induction cs arbitrary: df)
  case Nil
  then show ?case by simp
next
  case (Cons a cs)
  from Cons.prems(2) obtain df1 where 1: "convert_column conv a df = Inr df1"
    and 2: "convert_columns conv cs df1 = Inr df'"
    by (auto split: sum.splits)
  have c1: "columns df1 = columns df" using convert_column_Inr [OF 1] by simp
  show ?case
  proof (cases "a = c")
    case True
    have "\<forall>r\<in>set (rows df1). P (get_cell (columns df1) r c)"
      using convert_establishes [of conv P, OF assms(1,2) 1 [unfolded True]] by (simp add: c1)
    from convert_columns_closed [of conv P, OF assms(1) 2 this] show ?thesis by (simp add: c1)
  next
    case False
    with Cons.prems(1) have "c \<in> set cs" by simp
    from Cons.IH [OF this 2] show ?thesis by (simp add: c1)
  qed
qed

lemma filter_by_series: "map fst (filter snd (zip xs (map p xs))) = filter p xs"
  by (induction xs) simp_all

lemma and_series_map: "and_series (map p xs) (map q xs) = map (\<lambda>x. p x \<and> q x) xs"
  by (induction xs) (simp_all add: and_series_def)

lemma nonneg_series_map: "nonneg_series (map g xs) = map (\<lambda>x. ge0 (fillna0 (g x))) xs"
  by (simp add: nonneg_series_def)

lemma clean_chunk_rows:
  assumes "clean_chunk ps df = Inr df'"
  shows "\<exists>df2. conversions ps df = Inr df2 \<and>
         columns df' = columns df \<and>
         set required_cols \<subseteq> set (columns df) \<and>
         rows df' =
           filter (\<lambda>r. ge0 (fillna0 (get_cell (columns df) r ''fare_amount'')) \<and>
                       ge0 (fillna0 (get_cell (columns df) r ''trip_distance'')) \<and>
                       ge0 (fillna0 (get_cell (columns df) r ''passenger_count'')))
             (filter (\<lambda>r. get_cell (columns df) r ''pickup_datetime'' \<noteq> Null \<and>
                          get_cell (columns df) r ''dropoff_datetime'' \<noteq> Null)
                (rows df2))"
proof -
  from assms obtain df2 df3 where
    df2: "conversions ps df = Inr df2"
    and d: "dropna datetime_cols df2 = Inr df3"
    and c: "''fare_amount'' \<in> set (columns df3)" "''trip_distance'' \<in> set (columns df3)"
       "''passenger_count'' \<in> set (columns df3)"
    and r: "df' = boolean_index df3
            (and_series (and_series
               (nonneg_series (series df3 ''fare_amount''))
               (nonneg_series (series df3 ''trip_distance'')))
               (nonneg_series (series df3 ''passenger_count'')))"
    by (rule clean_chunk_Inr)
  have c2: "columns df2 = columns df" using conversions_Inr [OF df2] by simp
  from dropna_Inr [OF d] have c3: "columns df3 = columns df"
    and s: "set datetime_cols \<subseteq> set (columns df)"
    and r3: "rows df3 = filter (\<lambda>r. list_all (\<lambda>c. get_cell (columns df) r c \<noteq> Null) datetime_cols) (rows df2)"
    by (simp_all add: c2)
  have "columns df' = columns df" by (simp add: r boolean_index_def c3)
  moreover have "set required_cols \<subseteq> set (columns df)"
    using s c by (simp add: required_cols_def datetime_cols_def c3)
  moreover have "rows df' = filter (\<lambda>r. ge0 (fillna0 (get_cell (columns df) r ''fare_amount'')) \<and>
                       ge0 (fillna0 (get_cell (columns df) r ''trip_distance'')) \<and>
                       ge0 (fillna0 (get_cell (columns df) r ''passenger_count''))) (rows df3)"
    unfolding r boolean_index_def series_def nonneg_series_map and_series_map c3
    by (simp add: filter_by_series conj_assoc)
  ultimately show ?thesis using df2 by (simp add: r3 datetime_cols_def)
qed

lemma to_numeric_number: "to_numeric ps s = Inr s' \<Longrightarrow> v \<in> set s' \<Longrightarrow> missing_or_number v"
  by (auto simp: to_numeric_def split: option.splits)

lemma to_datetime_timestamp:
  "to_datetime ps s = Inr s' \<Longrightarrow> v \<in> set s' \<Longrightarrow> v = Null \<or> is_timestamp v"
  by (auto simp: to_datetime_def split: option.splits)

lemma nonneg_of_number: "missing_or_number v \<Longrightarrow> ge0 (fillna0 v) \<Longrightarrow> missing_or_nonneg v"
  by (cases v) simp_all

lemma numeric_column_after_conversion:
  assumes "c \<in> set num_cols"
    and "convert_columns (to_numeric ps) num_cols df = Inr df2"
    and "r \<in> set (rows df2)"
  shows "missing_or_number (get_cell (columns df) r c)"
proof -
  have "\<forall>r\<in>set (rows df2). missing_or_number (get_cell (columns df) r c)"
    by (rule convert_columns_establishes [OF _ _ assms(1,2)])
       (simp_all add: to_numeric_number)
  with assms(3) show ?thesis by simp
qed

lemma datetime_column_after_conversion:
  assumes "c \<in> set datetime_cols"
    and "conversions ps df = Inr df2"
    and "r \<in> set (rows df2)"
  shows "get_cell (columns df) r c = Null \<or> is_timestamp (get_cell (columns df) r c)"
proof -
  let ?P = "\<lambda>v. v = Null \<or> is_timestamp v"
  from assms(2) obtain df1 where 1: "convert_columns (to_datetime ps) datetime_cols df = Inr df1"
    and 2: "convert_columns (to_numeric ps) num_cols df1 = Inr df2"
    by (auto simp: conversions_def split: sum.splits)
  have c1: "columns df1 = columns df" using convert_columns_Inr [OF 1] by simp
  have "\<forall>r\<in>set (rows df1). ?P (get_cell (columns df) r c)"
    by (rule convert_columns_establishes [OF _ _ assms(1) 1])
       (auto dest: to_datetime_timestamp)
  then have d: "\<forall>r\<in>set (rows df1). ?P (get_cell (columns df1) r c)" by (simp add: c1)
  have "c \<notin> set num_cols" using assms(1) by (auto simp: datetime_cols_def num_cols_def)
  from convert_columns_preserves_other [of c num_cols "to_numeric ps" df1 df2 ?P, OF this 2 d]
  have "\<forall>r\<in>set (rows df2). ?P (get_cell (columns df) r c)" by (simp add: c1)
  with assms(3) show ?thesis by simp
qed

text \<open>
  Claim C3, amended. In every row that cleaning returns, the pickup and the
  drop-off cell hold parsed timestamps; \<open>passenger_count\<close>, \<open>trip_distance\<close> and
  \<open>fare_amount\<close> are missing or a number that is not negative; \<open>tip_amount\<close> and
  \<open>total_amount\<close> are missing or a number, of either sign: the cleaner compares
  only the first three with zero.
\<close>

theorem cleaned_row_invariant:
  assumes "clean_chunk ps df = Inr df'" and "r \<in> set (rows df')"
  shows "is_timestamp (get_cell (columns df') r ''pickup_datetime'') \<and>
         is_timestamp (get_cell (columns df') r ''dropoff_datetime'') \<and>
         missing_or_nonneg (get_cell (columns df') r ''passenger_count'') \<and>
         missing_or_nonneg (get_cell (columns df') r ''trip_distance'') \<and>
         missing_or_nonneg (get_cell (columns df') r ''fare_amount'') \<and>
         missing_or_number (get_cell (columns df') r ''tip_amount'') \<and>
         missing_or_number (get_cell (columns df') r ''total_amount'')"
proof -
  let ?g = "get_cell (columns df) r"
  from clean_chunk_rows [OF assms(1)] assms(2) obtain df2 where
    df2: "conversions ps df = Inr df2"
    and cols: "columns df' = columns df"
    and r2: "r \<in> set (rows df2)"
    and nn: "?g ''pickup_datetime'' \<noteq> Null" "?g ''dropoff_datetime'' \<noteq> Null"
    and ge: "ge0 (fillna0 (?g ''fare_amount''))" "ge0 (fillna0 (?g ''trip_distance''))"
            "ge0 (fillna0 (?g ''passenger_count''))"
    by auto
  from df2 obtain df1 where 1: "convert_columns (to_datetime ps) datetime_cols df = Inr df1"
    and 2: "convert_columns (to_numeric ps) num_cols df1 = Inr df2"
    by (auto simp: conversions_def split: sum.splits)
  have c1: "columns df1 = columns df" using convert_columns_Inr [OF 1] by simp
  have num: "missing_or_number (?g c)" if "c \<in> set num_cols" for c
    using numeric_column_after_conversion [OF that 2 r2] by (simp add: c1)
  have dt: "is_timestamp (?g c)" if "c \<in> set datetime_cols" "?g c \<noteq> Null" for c
    using datetime_column_after_conversion [OF that(1) df2 r2] that(2) by simp
  have "is_timestamp (?g ''pickup_datetime'')" "is_timestamp (?g ''dropoff_datetime'')"
    using nn by (simp_all add: dt datetime_cols_def)
  moreover have "missing_or_nonneg (?g ''passenger_count'')"
    "missing_or_nonneg (?g ''trip_distance'')" "missing_or_nonneg (?g ''fare_amount'')"
    using ge by (simp_all add: nonneg_of_number num num_cols_def)
  moreover have "missing_or_number (?g ''tip_amount'')" "missing_or_number (?g ''total_amount'')"
    by (simp_all add: num num_cols_def)
  ultimately show ?thesis by (simp add: cols)
qed

lemmas clean_eval =
  clean_chunk_def conversions_def datetime_cols_def num_cols_def convert_column_def setitem_def
  series_def assign_row_def dropna_def getitem_def get_cell_def nonneg_series_def and_series_def
  boolean_index_def to_datetime_def to_numeric_def iso_parsers_def

lemma clean_refund_trip:
  "clean_chunk iso_parsers refund_trip = Inr (refund_trip\<lparr>rows := [refund_row]\<rparr>)"
  by (simp add: clean_eval refund_trip_def refund_row_def)

text \<open>
  Claim C3 as stated fails: a trip with a tip and a total of \<open>-3\<close> passes the
  cleaner unchanged.
\<close>

theorem negative_tip_survives:
  "clean_chunk iso_parsers refund_trip = Inr (refund_trip\<lparr>rows := [refund_row]\<rparr>) \<and>
   get_cell (columns refund_trip) refund_row ''tip_amount'' = Num (- 3) \<and>
   get_cell (columns refund_trip) refund_row ''total_amount'' = Num (- 3) \<and>
   \<not> missing_or_nonneg (Num (- 3))"
  by (simp add: clean_refund_trip) (simp add: refund_trip_def refund_row_def get_cell_def)

theorem cleaned_row_invariant_witness:
  "clean_chunk iso_parsers refund_trip = Inr (refund_trip\<lparr>rows := [refund_row]\<rparr>) \<and>
   refund_row \<in> set (rows (refund_trip\<lparr>rows := [refund_row]\<rparr>)) \<and>
   is_timestamp (get_cell (columns refund_trip) refund_row ''pickup_datetime'') \<and>
   missing_or_nonneg (get_cell (columns refund_trip) refund_row ''fare_amount'') \<and>
   missing_or_number (get_cell (columns refund_trip) refund_row ''tip_amount'')"
proof -
  have h: "refund_row \<in> set (rows (refund_trip\<lparr>rows := [refund_row]\<rparr>))" by simp
  show ?thesis
    using cleaned_row_invariant [OF clean_refund_trip h] clean_refund_trip by simp
qed






lemma clean_scenario_chunk:
  "clean_chunk iso_parsers scenario_chunk = Inl (KeyError [''passenger_count''])"
  by (simp add: clean_eval scenario_chunk_def scenario_rows_def)

lemma clean_scenario_chunk_as_written:
  "clean_chunk iso_parsers scenario_chunk_as_written = Inl (KeyError [''pickup_datetime'', ''dropoff_datetime''])"
  by (simp add: clean_eval scenario_chunk_as_written_def scenario_rows_def)

lemma committed_append: "committed (xs @ ys) = committed xs @ committed ys"
  by (induction xs rule: committed.induct) simp_all

lemma length_values_of: "length (values_of keys batch) = length batch"
  by (simp add: values_of_def)

text \<open>What one sub-batch does to the store.\<close>

lemma insert_batch_Inr:
  assumes "insert_batch ev keys records b j w = (Inr n, w')" and "pending w = []"
  shows "\<exists>vals. length vals = n \<and> events w' = events w @ [Executed vals, Committed vals] \<and>
           table w' = table w @ vals \<and> pending w' = [] \<and>
           open_conns w' = open_conns w \<and> out w' = out w \<and> staged w' = staged w"
  using assms
  by (auto simp: insert_batch_def Let_def executemany_def commit_def note_event_def
        length_values_of split: if_splits)

lemma insert_batch_Inl:
  assumes "insert_batch ev keys records b j w = (Inl e, w')"
  shows "committed (drop (length (events w)) (events w')) = [] \<and> 
         (\<exists>new. events w' = events w @ new \<and> committed new = [] \<and> Closed \<notin> set new) \<and>
         table w' = table w \<and> open_conns w' = open_conns w \<and> out w' = out w"
  using assms
  by (auto simp: insert_batch_def Let_def executemany_def commit_def note_event_def
        split: if_splits)

lemma insert_batches_spec:
  assumes "insert_batches ev keys records b js ins w = (r, ins', w')" and "pending w = []"
  shows "\<exists>new. events w' = events w @ new \<and>
           ins' = ins + sum_list (map length (committed new)) \<and>
           table w' = table w @ concat (committed new) \<and>
           (r = Inr () \<longrightarrow> pending w' = []) \<and> Closed \<notin> set new \<and>
           open_conns w' = open_conns w \<and> out w' = out w"
  using assms
proof (induction js arbitrary: ins w)
  case Nil
  then show ?case by simp
next
  case (Cons j js)
  show ?case
  proof (cases "insert_batch ev keys records b j w")
    case (Pair r1 w1)
    show ?thesis
    proof (cases r1)
      case (Inl e)
      with Pair Cons.prems(1) have "w' = w1" "ins' = ins" "r = Inl e" by simp_all
      moreover from insert_batch_Inl [of ev keys records b j w e w1] Pair Inl
      obtain new where "events w1 = events w @ new" "committed new = []" "Closed \<notin> set new"
        "table w1 = table w" "open_conns w1 = open_conns w" "out w1 = out w" by auto
      ultimately show ?thesis by auto
    next
      case (Inr n)
      with Pair Cons.prems(1)
      have rec: "insert_batches ev keys records b js (ins + n) w1 = (r, ins', w')" by simp
      from insert_batch_Inr [of ev keys records b j w n w1] Pair Inr Cons.prems(2)
      obtain vals where v: "length vals = n" "events w1 = events w @ [Executed vals, Committed vals]"
        "table w1 = table w @ vals" "pending w1 = []" "open_conns w1 = open_conns w"
        "out w1 = out w" by auto
      from Cons.IH [OF rec v(4)] obtain new where
        n: "events w' = events w1 @ new"
        "ins' = ins + n + sum_list (map length (committed new))"
        "table w' = table w1 @ concat (committed new)"
        "r = Inr () \<longrightarrow> pending w' = []" "Closed \<notin> set new"
        "open_conns w' = open_conns w1" "out w' = out w1" by auto
      show ?thesis
        by (rule exI [of _ "[Executed vals, Committed vals] @ new"])
           (simp add: n v committed_append)
    qed
  qed
qed

lemma committed_single [simp]:
  "committed [RolledBack] = []" "committed [RollbackFailed] = []" "committed [Closed] = []"
  "committed [Connected] = []"
  by simp_all

lemma try_insert_spec:
  assumes "try_insert ev i keys records bs w = (ins, w')" and "pending w = []"
  shows "\<exists>new. events w' = events w @ new \<and>
           ins = sum_list (map length (committed new)) \<and>
           table w' = table w @ concat (committed new)"
proof (cases "range_step (length records) bs")
  case (Inl e)
  with assms have "ins = 0" "w' = rollback ev (say (InsertErrorLine i) w)"
    by (simp_all add: try_insert_def)
  then show ?thesis
    by (cases "rollback_ok ev (say (InsertErrorLine i) w)")
       (simp_all add: rollback_def say_def note_event_def)
next
  case (Inr js)
  obtain r ins1 w1 where ib: "insert_batches ev keys records (nat bs) js 0 w = (r, ins1, w1)"
    by (metis prod_cases3)
  from insert_batches_spec [OF ib assms(2)] obtain new where
    n: "events w1 = events w @ new" "ins1 = sum_list (map length (committed new))"
       "table w1 = table w @ concat (committed new)" by auto
  show ?thesis
  proof (cases r)
    case l: (Inl e)
    with Inr ib assms(1) have "ins = ins1" "w' = rollback ev (say (InsertErrorLine i) w1)"
      by (simp_all add: try_insert_def)
    then show ?thesis
      using n
      by (cases "rollback_ok ev (say (InsertErrorLine i) w1)")
         (simp_all add: rollback_def say_def note_event_def committed_append)
  next
    case r: (Inr u)
    with Inr ib assms(1) have "ins = ins1" "w' = close w1"
      by (simp_all add: try_insert_def)
    then show ?thesis
      using n by (simp add: close_def note_event_def committed_append)
  qed
qed

lemma load_chunk_spec:
  assumes "load_chunk ev i chunk bs w = (Inr ins, w')"
  shows "\<exists>new. events w' = events w @ new \<and>
           ins = sum_list (map length (committed new)) \<and>
           table w' = table w @ concat (committed new)"
proof -
  let ?w0 = "note_event Connected (w\<lparr>pending := [], open_conns := Suc (open_conns w)\<rparr>)"
  from assms have ok: "connect_ok ev w"
    and t: "try_insert ev i (columns (schema_mapper chunk)) (to_dict (schema_mapper chunk)) bs ?w0
            = (ins, w')"
    by (auto simp: load_chunk_def Let_def connect_def split: if_splits prod.splits)
  have "pending ?w0 = []" by (simp add: note_event_def)
  from try_insert_spec [OF t this] obtain new where
    "events w' = events ?w0 @ new" "ins = sum_list (map length (committed new))"
    "table w' = table ?w0 @ concat (committed new)" by auto
  then show ?thesis
    by (intro exI [of _ "Connected # new"]) (simp add: note_event_def)
qed

lemma chunk_loop_spec:
  assumes "chunk_loop ps ev bs chunks i n w = (Inr n', w')"
  shows "\<exists>new. events w' = events w @ new \<and>
           n' = n + sum_list (map length (committed new)) \<and>
           table w' = table w @ concat (committed new)"
  using assms
proof (induction chunks arbitrary: i n w)
  case Nil
  then show ?case by simp
next
  case (Cons chunk0 rest)
  from Cons.prems obtain chunk where c: "clean_chunk ps chunk0 = Inr chunk"
    by (cases "clean_chunk ps chunk0") simp_all
  show ?case
  proof (cases "length (rows chunk) = 0")
    case True
    with c Cons.prems
    have "chunk_loop ps ev bs rest (Suc i) n (say (SkipLine i (length (rows chunk0))) w) = (Inr n', w')"
      by simp
    from Cons.IH [OF this] show ?thesis by (simp add: say_def)
  next
    case False
    obtain r1 w1 where l: "load_chunk ev i chunk bs w = (r1, w1)" by (cases "load_chunk ev i chunk bs w")
    with c False Cons.prems obtain ins where r1: "r1 = Inr ins"
      by (cases r1) (simp_all add: Let_def)
    with l c False Cons.prems
    have rec: "chunk_loop ps ev bs rest (Suc i) (n + ins)
                 (say (ChunkLine i (length (rows chunk0)) (length (rows chunk)) ins) w1) = (Inr n', w')"
      by (simp add: Let_def)
    from load_chunk_spec [OF l [unfolded r1]] obtain new1 where
      1: "events w1 = events w @ new1" "ins = sum_list (map length (committed new1))"
         "table w1 = table w @ concat (committed new1)" by auto
    from Cons.IH [OF rec] obtain new2 where
      2: "events w' = events w1 @ new2" "n' = n + ins + sum_list (map length (committed new2))"
         "table w' = table w1 @ concat (committed new2)" by (auto simp: say_def)
    show ?thesis
      by (rule exI [of _ "new1 @ new2"]) (simp add: 1 2 committed_append)
  qed
qed

text \<open>
  Claim C2. When a run returns its total, the total is the sum of the sizes of
  the sub-batches that the run committed, and the destination table has
  gained the rows of exactly those sub-batches, in order: a sub-batch whose
  insert failed adds nothing to either.
\<close>

theorem total_inserted_eq_committed:
  assumes "chunk_and_insert ps ev chunks bs w = (Inr total_rows, w')"
  shows "\<exists>new. events w' = events w @ new \<and>
           total_rows = sum_list (map length (committed new)) \<and>
           table w' = table w @ concat (committed new)"
proof -
  from assms obtain w1 where l: "chunk_loop ps ev bs chunks 0 0 w = (Inr total_rows, w1)"
    and w': "w' = say (TotalLine total_rows) w1"
    by (auto simp: chunk_and_insert_def split: prod.splits sum.splits)
  from chunk_loop_spec [OF l] show ?thesis by (simp add: w' say_def)
qed

lemmas store_eval =
  connect_def executemany_def commit_def rollback_def close_def say_def note_event_def
  insert_batch_def try_insert_def load_chunk_def chunk_and_insert_def range_step_def
  to_dict_def dict_get_def values_of_def Let_def

lemmas mapper_eval =
  schema_mapper_def rename_def col_map_def present_def allowed_def select_columns_def
  vendor_map_def Let_def

lemmas trips_eval =
  three_trips_def three_trips_cleaned_def trip_9_def trip_7_def trip_12_def

lemmas worlds_eval =
  empty_world_def connected_world_def committed_world_def rejected_world_def failed_world_def
  leaked_world_def loaded_world_def aborted_world_def

lemma clean_three_trips:
  "clean_chunk iso_parsers three_trips = Inr three_trips_cleaned"
  by (simp add: clean_eval three_trips_def three_trips_cleaned_def)

lemma map_three_trips:
  "schema_mapper three_trips_cleaned = three_trips_cleaned"
  by (simp add: mapper_eval three_trips_def three_trips_cleaned_def)

lemma length_three_trips [simp]:
  "length (rows three_trips) = 3" "length (rows three_trips_cleaned) = 3"
  "length (to_dict three_trips_cleaned) = 3"
  by (simp_all add: three_trips_def three_trips_cleaned_def to_dict_def)

lemma load_three_trips:
  "load_chunk (fare7_env cs) i three_trips_cleaned 1 w =
     (Inr 1, w\<lparr>table := table w @ [trip_9], pending := [], open_conns := Suc (open_conns w),
               events := events w @ [Connected, Executed [trip_9], Committed [trip_9],
                                     ExecuteFailed [trip_7], RolledBack],
               out := out w @ [InsertErrorLine i]\<rparr>)"
  unfolding load_chunk_def map_three_trips
  by (simp add: store_eval trips_eval fare7_env_def accepting_env_def)


lemma run_three_trips:
  "chunk_and_insert iso_parsers (fare7_env []) [three_trips] 1 empty_world = (Inr 1, failed_world)"
  by (simp add: chunk_and_insert_def clean_three_trips load_three_trips say_def
        empty_world_def failed_world_def)

lemma run_three_trips_twice:
  "chunk_and_insert iso_parsers (fare7_env []) [three_trips, three_trips] 1 empty_world
     = (Inr 2, leaked_world)"
  by (simp add: chunk_and_insert_def clean_three_trips load_three_trips say_def
        empty_world_def leaked_world_def)


text \<open>
  Claim C1 as stated fails. Three trips go to the store one row per sub-batch,
  and the store refuses the second: the third sub-batch, which the store
  would accept, is never sent, and the chunk counts one row.
\<close>

theorem later_sub_batch_not_attempted:
  "chunk_and_insert iso_parsers (fare7_env []) [three_trips] 1 empty_world = (Inr 1, failed_world) \<and>
   values_of (columns three_trips_cleaned) (to_dict three_trips_cleaned) = [trip_9, trip_7, trip_12] \<and>
   attempted (events failed_world) = [[trip_9], [trip_7]] \<and>
   table failed_world = [trip_9] \<and>
   execute_ok (fare7_env []) failed_world [trip_12]"
  by (simp add: run_three_trips)
     (simp add: failed_world_def fare7_env_def accepting_env_def trips_eval to_dict_def
        values_of_def dict_get_def)

lemma insert_batches_append:
  "insert_batches ev keys records b (pre @ js) ins w =
     (case insert_batches ev keys records b pre ins w of
        (Inl e, ins1, w1) \<Rightarrow> (Inl e, ins1, w1)
      | (Inr u, ins1, w1) \<Rightarrow> insert_batches ev keys records b js ins1 w1)"
  by (induction pre arbitrary: ins w) (simp_all split: prod.splits sum.splits)

lemma attempted_append: "attempted (xs @ ys) = attempted xs @ attempted ys"
  by (induction xs rule: attempted.induct) simp_all

lemma rollback_keeps:
  "table (rollback ev w) = table w \<and> attempted (events (rollback ev w)) = attempted (events w)"
  by (simp add: rollback_def note_event_def attempted_append)

text \<open>
  Claim C1, amended. When a sub-batch of a chunk fails, after the sub-batches
  \<open>pre\<close> before it went through, the handler prints the error and rolls the
  open transaction back; the sub-batches \<open>post\<close> after it are not attempted;
  the chunk counts the rows \<open>ins\<close> committed before the failure, which are the
  rows the destination table has gained since the chunk's connection was
  opened; and the run goes on with the next chunk.
\<close>

theorem failed_sub_batch_ends_chunk:
  assumes "clean_chunk ps chunk0 = Inr chunk" and "rows chunk \<noteq> []"
    and "connect ev w = (Inr (), w0)"
    and "range_step (length (to_dict (schema_mapper chunk))) bs = Inr (pre @ j # post)"
    and "insert_batches ev (columns (schema_mapper chunk)) (to_dict (schema_mapper chunk))
           (nat bs) pre 0 w0 = (Inr (), ins, w1)"
    and "insert_batch ev (columns (schema_mapper chunk)) (to_dict (schema_mapper chunk))
           (nat bs) j w1 = (Inl e, w2)"
  shows "chunk_loop ps ev bs (chunk0 # rest) i n w =
           chunk_loop ps ev bs rest (Suc i) (n + ins)
             (say (ChunkLine i (length (rows chunk0)) (length (rows chunk)) ins)
                (rollback ev (say (InsertErrorLine i) w2))) \<and>
         (\<exists>new. events w2 = events w0 @ new \<and>
                ins = sum_list (map length (committed new)) \<and>
                table w2 = table w0 @ concat (committed new)) \<and>
         table w0 = table w \<and>
         table (rollback ev (say (InsertErrorLine i) w2)) = table w2 \<and>
         attempted (events (rollback ev (say (InsertErrorLine i) w2))) = attempted (events w2)"
proof -
  have "insert_batches ev (columns (schema_mapper chunk)) (to_dict (schema_mapper chunk))
           (nat bs) (pre @ j # post) 0 w0 = (Inl e, ins, w2)"
    by (simp add: insert_batches_append assms(5,6))
  then have "try_insert ev i (columns (schema_mapper chunk)) (to_dict (schema_mapper chunk)) bs w0
           = (ins, rollback ev (say (InsertErrorLine i) w2))"
    by (simp add: try_insert_def assms(4))
  then have "load_chunk ev i chunk bs w = (Inr ins, rollback ev (say (InsertErrorLine i) w2))"
    by (simp add: load_chunk_def Let_def assms(3))
  then have loop: "chunk_loop ps ev bs (chunk0 # rest) i n w =
           chunk_loop ps ev bs rest (Suc i) (n + ins)
             (say (ChunkLine i (length (rows chunk0)) (length (rows chunk)) ins)
                (rollback ev (say (InsertErrorLine i) w2)))"
    using assms(1,2) by (simp add: Let_def)
  from assms(3) have w0: "pending w0 = []" "table w0 = table w"
    by (auto simp: connect_def note_event_def split: if_splits)
  from insert_batches_spec [OF assms(5) w0(1)] obtain new1 where
    1: "events w1 = events w0 @ new1" "ins = sum_list (map length (committed new1))"
       "table w1 = table w0 @ concat (committed new1)" by auto
  from insert_batch_Inl [OF assms(6)] obtain new2 where
    2: "events w2 = events w1 @ new2" "committed new2 = []" "table w2 = table w1" by auto
  have counted: "\<exists>new. events w2 = events w0 @ new \<and>
                ins = sum_list (map length (committed new)) \<and>
                table w2 = table w0 @ concat (committed new)"
    by (rule exI [of _ "new1 @ new2"]) (simp add: 1 2 committed_append)
  have after: "table (rollback ev (say (InsertErrorLine i) w2)) = table w2"
    "attempted (events (rollback ev (say (InsertErrorLine i) w2))) = attempted (events w2)"
    by (simp_all add: rollback_keeps) (simp_all add: say_def)
  from loop counted w0(2) after show ?thesis by blast
qed

theorem failed_sub_batch_ends_chunk_witness:
  "clean_chunk iso_parsers three_trips = Inr three_trips_cleaned \<and>
   rows three_trips_cleaned \<noteq> [] \<and>
   connect (fare7_env []) empty_world = (Inr (), connected_world) \<and>
   range_step (length (to_dict (schema_mapper three_trips_cleaned))) 1 = Inr ([0] @ 1 # [2]) \<and>
   insert_batches (fare7_env []) (columns (schema_mapper three_trips_cleaned))
     (to_dict (schema_mapper three_trips_cleaned)) (nat 1) [0] 0 connected_world
       = (Inr (), 1, committed_world) \<and>
   insert_batch (fare7_env []) (columns (schema_mapper three_trips_cleaned))
     (to_dict (schema_mapper three_trips_cleaned)) (nat 1) 1 committed_world
       = (Inl DatabaseError, rejected_world) \<and>
   chunk_loop iso_parsers (fare7_env []) 1 (three_trips # []) 0 0 empty_world =
     chunk_loop iso_parsers (fare7_env []) 1 [] (Suc 0) (0 + 1)
       (say (ChunkLine 0 (length (rows three_trips)) (length (rows three_trips_cleaned)) 1)
          (rollback (fare7_env []) (say (InsertErrorLine 0) rejected_world))) \<and>
   (\<exists>new. events rejected_world = events connected_world @ new \<and>
          (1::nat) = sum_list (map length (committed new)) \<and>
          table rejected_world = table connected_world @ concat (committed new)) \<and>
   table connected_world = table empty_world \<and>
   table rejected_world = [trip_9] \<and>
   attempted (events (rollback (fare7_env []) (say (InsertErrorLine 0) rejected_world)))
     = attempted (events rejected_world)"
proof -
  let ?ev = "fare7_env []" and ?df = "schema_mapper three_trips_cleaned"
  have 1: "clean_chunk iso_parsers three_trips = Inr three_trips_cleaned"
    by (rule clean_three_trips)
  have 2: "rows three_trips_cleaned \<noteq> []"
    by (simp add: three_trips_cleaned_def)
  have 3: "connect ?ev empty_world = (Inr (), connected_world)"
    by (simp add: connect_def note_event_def fare7_env_def accepting_env_def worlds_eval)
  have 4: "range_step (length (to_dict ?df)) 1 = Inr ([0] @ 1 # [2])"
    by (simp add: map_three_trips range_step_def upt_rec)
  have 5: "insert_batches ?ev (columns ?df) (to_dict ?df) (nat 1) [0] 0 connected_world
             = (Inr (), 1, committed_world)"
    unfolding map_three_trips
    by (simp add: store_eval trips_eval fare7_env_def accepting_env_def worlds_eval)
  have 6: "insert_batch ?ev (columns ?df) (to_dict ?df) (nat 1) 1 committed_world
             = (Inl DatabaseError, rejected_world)"
    unfolding map_three_trips
    by (simp add: store_eval trips_eval fare7_env_def accepting_env_def worlds_eval)
  have 7: "table rejected_world = [trip_9]"
    by (simp add: worlds_eval)
  note concl = failed_sub_batch_ends_chunk [OF 1 2 3 4 5 6, of "[]" 0 0]
  from 1 2 3 4 5 6 7 concl show ?thesis by blast
qed

theorem total_inserted_eq_committed_witness:
  "chunk_and_insert iso_parsers (fare7_env []) [three_trips] 1 empty_world = (Inr 1, failed_world) \<and>
   (\<exists>new. events failed_world = events empty_world @ new \<and>
          (1::nat) = sum_list (map length (committed new)) \<and>
          table failed_world = table empty_world @ concat (committed new)) \<and>
   committed (events failed_world) = [[trip_9]]"
  using total_inserted_eq_committed [OF run_three_trips] run_three_trips
  by (simp add: failed_world_def)

text \<open>
  Claim C9 does not hold of the code. \<open>cursor.close()\<close> and \<open>conn.close()\<close> stand
  inside the \<open>try\<close> block after the loop, and the handler only rolls back:
  when a sub-batch fails the chunk's connection stays open. Two chunks that
  each fail leave two connections open at the end of the run, and the second
  was opened while the first was still open.
\<close>

theorem connection_left_open_after_failure:
  "chunk_and_insert iso_parsers (fare7_env []) [three_trips, three_trips] 1 empty_world
     = (Inr 2, leaked_world) \<and>
   open_conns empty_world = 0 \<and> open_conns leaked_world = 2 \<and>
   Closed \<notin> set (events leaked_world)"
  by (simp add: run_three_trips_twice) (simp add: leaked_world_def empty_world_def)

text \<open>
  Claim C6. When cleaning leaves no row of a chunk, the loop prints the skip
  line and goes on with the next chunk: no exception, the running total as it
  was, and a world that differs by the printed line only (the store is not
  touched, no connection is opened).
\<close>

theorem empty_cleaned_chunk_skipped:
  assumes "clean_chunk ps chunk0 = Inr chunk" and "rows chunk = []"
  shows "chunk_loop ps ev bs (chunk0 # rest) i n w =
           chunk_loop ps ev bs rest (Suc i) n (say (SkipLine i (length (rows chunk0))) w) \<and>
         out (say (SkipLine i (length (rows chunk0))) w) = out w @ [SkipLine i (length (rows chunk0))] \<and>
         table (say (SkipLine i (length (rows chunk0))) w) = table w \<and>
         events (say (SkipLine i (length (rows chunk0))) w) = events w \<and>
         open_conns (say (SkipLine i (length (rows chunk0))) w) = open_conns w"
  using assms by (simp add: say_def)

lemma clean_bad_date_trip:
  "clean_chunk iso_parsers bad_date_trip = Inr (bad_date_trip\<lparr>rows := []\<rparr>)"
  by (simp add: clean_eval bad_date_trip_def)

theorem empty_cleaned_chunk_skipped_witness:
  "clean_chunk iso_parsers bad_date_trip = Inr (bad_date_trip\<lparr>rows := []\<rparr>) \<and>
   rows (bad_date_trip\<lparr>rows := []\<rparr>) = [] \<and>
   chunk_and_insert iso_parsers (fare7_env []) [bad_date_trip, three_trips] 1 empty_world =
     (Inr 1, failed_world\<lparr>out := [SkipLine 0 1, InsertErrorLine 1, ChunkLine 1 3 3 1, TotalLine 1]\<rparr>)"
proof -
  have e: "rows (bad_date_trip\<lparr>rows := []\<rparr>) = []" by simp
  have l: "length (rows bad_date_trip) = 1" by (simp add: bad_date_trip_def)
  note s = empty_cleaned_chunk_skipped [OF clean_bad_date_trip e,
             of "fare7_env []" 1 "[three_trips]" 0 0 empty_world, THEN conjunct1]
  have "chunk_and_insert iso_parsers (fare7_env []) [bad_date_trip, three_trips] 1 empty_world =
     (Inr 1, failed_world\<lparr>out := [SkipLine 0 1, InsertErrorLine 1, ChunkLine 1 3 3 1, TotalLine 1]\<rparr>)"
    unfolding chunk_and_insert_def s l
    by (simp add: clean_three_trips load_three_trips say_def empty_world_def failed_world_def)
  with clean_bad_date_trip e show ?thesis by (intro conjI)
qed















text \<open>
  The part of the mapper's contract that holds for every chunk: the mapped
  chunk has allow-listed labels only, \<open>vendorid\<close> not among them; and a
  \<open>vendor_id\<close> column comes out exactly when the chunk had \<open>vendorid\<close> or
  \<open>vendor_id\<close>.
\<close>

lemma set_columns_select:
  "set (columns (select_columns ks df)) = {c \<in> set (columns df). c \<in> set ks}"
  by (auto simp: select_columns_def)

lemma set_columns_schema_mapper:
  "set (columns (schema_mapper df)) =
     (\<lambda>c. case map_of vendor_map c of Some c' \<Rightarrow> c' | None \<Rightarrow> c) `
       {c \<in> (\<lambda>c. case map_of (col_map (columns df)) c of Some c' \<Rightarrow> c' | None \<Rightarrow> c) ` set (columns df).
          c \<in> set allowed}"
  by (auto simp: schema_mapper_def Let_def rename_def set_columns_select present_def)

lemma col_map_cases:
  "(case map_of (col_map cols) c of Some c' \<Rightarrow> c' | None \<Rightarrow> c) =
     (if c = ''lpep_pickup_datetime'' \<and> c \<in> set cols then ''pickup_datetime''
      else if c = ''lpep_dropoff_datetime'' \<and> c \<in> set cols then ''dropoff_datetime''
      else c)"
  by (simp add: col_map_def)

lemma vendor_map_allowed:
  "x \<in> set allowed \<Longrightarrow>
     (case map_of vendor_map x of Some c' \<Rightarrow> c' | None \<Rightarrow> x) =
       (if x = ''vendorid'' then ''vendor_id'' else x)"
  unfolding allowed_def vendor_map_def by (elim disjE | simp)+

lemma mapped_columns_allowed:
  "set (columns (schema_mapper df)) \<subseteq> set allowed - {''vendorid''}"
proof
  fix y assume "y \<in> set (columns (schema_mapper df))"
  then obtain x where x: "x \<in> set allowed"
    and y: "y = (case map_of vendor_map x of Some c' \<Rightarrow> c' | None \<Rightarrow> x)"
    unfolding set_columns_schema_mapper by blast
  have y': "y = (if x = ''vendorid'' then ''vendor_id'' else x)"
    unfolding y by (rule vendor_map_allowed [OF x])
  show "y \<in> set allowed - {''vendorid''}"
  proof (cases "x = ''vendorid''")
    case True
    with y' show ?thesis by (simp add: allowed_def)
  next
    case False
    with y' x show ?thesis by simp
  qed
qed

lemma vendor_id_column_iff:
  "''vendor_id'' \<in> set (columns (schema_mapper df)) \<longleftrightarrow>
     ''vendorid'' \<in> set (columns df) \<or> ''vendor_id'' \<in> set (columns df)"
proof
  assume "''vendor_id'' \<in> set (columns (schema_mapper df))"
  then obtain c x where c: "c \<in> set (columns df)"
    and xc: "x = (case map_of (col_map (columns df)) c of Some c' \<Rightarrow> c' | None \<Rightarrow> c)"
    and x: "x \<in> set allowed"
    and v: "''vendor_id'' = (case map_of vendor_map x of Some c' \<Rightarrow> c' | None \<Rightarrow> x)"
    unfolding set_columns_schema_mapper by blast
  from v have "''vendor_id'' = (if x = ''vendorid'' then ''vendor_id'' else x)"
    by (simp only: vendor_map_allowed [OF x])
  then have "x = ''vendorid'' \<or> x = ''vendor_id''"
    by (cases "x = ''vendorid''") simp_all
  moreover have "c = x" if "x = ''vendorid'' \<or> x = ''vendor_id''"
    using that xc unfolding col_map_cases by (auto split: if_splits)
  ultimately show "''vendorid'' \<in> set (columns df) \<or> ''vendor_id'' \<in> set (columns df)"
    using c by auto
next
  assume a: "''vendorid'' \<in> set (columns df) \<or> ''vendor_id'' \<in> set (columns df)"
  then obtain c where c: "c \<in> set (columns df)" "c = ''vendorid'' \<or> c = ''vendor_id''"
    by blast
  have 1: "(case map_of (col_map (columns df)) c of Some c' \<Rightarrow> c' | None \<Rightarrow> c) = c"
    unfolding col_map_cases using c(2) by auto
  have 2: "c \<in> set allowed" using c(2) by (auto simp: allowed_def)
  have 3: "(case map_of vendor_map c of Some c' \<Rightarrow> c' | None \<Rightarrow> c) = ''vendor_id''"
    using c(2) by (auto simp: vendor_map_def)
  have "c \<in> {c \<in> (\<lambda>c. case map_of (col_map (columns df)) c of Some c' \<Rightarrow> c' | None \<Rightarrow> c) `
                   set (columns df). c \<in> set allowed}"
    using c(1) 1 2 by (simp add: image_iff) metis
  then show "''vendor_id'' \<in> set (columns (schema_mapper df))"
    unfolding set_columns_schema_mapper using 3 by (metis (no_types, lifting) imageI)
qed

text \<open>
  Claim C5 does not hold of the code. The rename table sends \<open>VendorID\<close> to
  \<open>vendor_id\<close>, but the allow-list, which is applied first, has no \<open>VendorID\<close>:
  the column is dropped before it can be renamed, and the mapped chunk has no
  vendor column at all.
\<close>

theorem VendorID_column_dropped:
  "map_of vendor_map ''VendorID'' = Some ''vendor_id'' \<and>
   ''VendorID'' \<notin> set allowed \<and>
   ''VendorID'' \<in> set (columns vendor_trip) \<and>
   schema_mapper vendor_trip =
     \<lparr>columns = [''pickup_datetime'', ''dropoff_datetime'', ''passenger_count'',
                 ''trip_distance'', ''fare_amount''],
      rows = [[Ts 1609459200000000000, Ts 1609459800000000000, Num 1, Num 2, Num 9]]\<rparr> \<and>
   ''vendor_id'' \<notin> set (columns (schema_mapper vendor_trip))"
  by (simp add: mapper_eval vendor_trip_def)

text \<open>
  Claim C4 as stated fails. The rows of the scenario have no passenger count:
  with the timestamps under the labels the scenario gives, and also with them
  under \<open>pickup_datetime\<close> and \<open>dropoff_datetime\<close>, cleaning raises \<open>KeyError\<close>
  and the run ends before anything is inserted.
\<close>

theorem scenario_chunk_KeyError:
  "clean_chunk iso_parsers scenario_chunk_as_written
     = Inl (KeyError [''pickup_datetime'', ''dropoff_datetime'']) \<and>
   clean_chunk iso_parsers scenario_chunk = Inl (KeyError [''passenger_count'']) \<and>
   chunk_and_insert iso_parsers (accepting_env []) [scenario_chunk] 5000 empty_world
     = (Inl (KeyError [''passenger_count'']), empty_world)"
  by (simp add: clean_scenario_chunk clean_scenario_chunk_as_written chunk_and_insert_def)

lemma ge0_missing_or_nonneg: "missing_or_nonneg p \<Longrightarrow> ge0 (fillna0 p)"
  by (cases p) simp_all

lemma clean_scenario:
  assumes "missing_or_nonneg p3"
  shows "clean_chunk iso_parsers (scenario_chunk_with p1 p2 p3) = Inr (scenario_cleaned p3)"
  using assms
  by (cases p3)
     (simp_all add: clean_eval scenario_chunk_with_def scenario_chunk_def scenario_rows_def
        scenario_cleaned_def)

lemma map_scenario: "schema_mapper (scenario_cleaned p3) = scenario_cleaned p3"
  by (simp add: mapper_eval scenario_cleaned_def)

lemma range_step_one: "0 < bs \<Longrightarrow> range_step (Suc 0) bs = Inr [0]"
proof -
  assume "0 < bs"
  then have "0 < nat bs" by simp
  then have "(Suc 0 + nat bs - 1) div nat bs = 1" by simp
  with \<open>0 < bs\<close> show ?thesis by (simp add: range_step_def)
qed

lemma load_scenario:
  assumes "0 < bs"
  shows "load_chunk (accepting_env cs) i (scenario_cleaned p3) bs w =
     (Inr 1, w\<lparr>table := table w @ [scenario_third_row p3], pending := [],
               open_conns := open_conns w,
               events := events w @ [Connected, Executed [scenario_third_row p3],
                                     Committed [scenario_third_row p3], Closed]\<rparr>)"
proof -
  from assms have t: "take (nat bs) [x] = [x]" for x :: "(string \<times> cell) list"
    by (cases "nat bs") simp_all
  show ?thesis
    unfolding load_chunk_def map_scenario
    by (simp add: try_insert_def range_step_one [OF assms] connect_def executemany_def
          commit_def close_def note_event_def insert_batch_def to_dict_def dict_get_def
          values_of_def Let_def t scenario_cleaned_def scenario_third_row_def accepting_env_def)
qed

text \<open>
  Claim C4, amended. Let the chunk of the scenario carry its timestamps under
  \<open>pickup_datetime\<close> and \<open>dropoff_datetime\<close> and have a \<open>passenger_count\<close> column
  whose cell in the third row is missing or not negative. Then cleaning
  returns exactly the third row, and with a store that accepts the one
  sub-batch the run inserts that row and returns 1.
\<close>

theorem scenario_with_passenger_count:
  assumes "missing_or_nonneg p3" and "0 < bs"
  shows "clean_chunk iso_parsers (scenario_chunk_with p1 p2 p3) = Inr (scenario_cleaned p3) \<and>
         length (rows (scenario_cleaned p3)) = 1 \<and>
         (\<exists>w'. chunk_and_insert iso_parsers (accepting_env cs) [scenario_chunk_with p1 p2 p3] bs w
                 = (Inr 1, w') \<and>
               table w' = table w @ [scenario_third_row p3] \<and>
               out w' = out w @ [ChunkLine 0 3 1 1, TotalLine 1])"
proof -
  have 3: "length (rows (scenario_chunk_with p1 p2 p3)) = 3"
    by (simp add: scenario_chunk_with_def scenario_rows_def)
  have 1: "length (rows (scenario_cleaned p3)) = 1"
    by (simp add: scenario_cleaned_def)
  show ?thesis
    by (simp add: clean_scenario [OF assms(1)] chunk_and_insert_def 3 1
          load_scenario [OF assms(2)] say_def)
qed

theorem scenario_with_passenger_count_witness:
  "missing_or_nonneg Null \<and> (0::int) < 5000 \<and>
   clean_chunk iso_parsers (scenario_chunk_with (Num 1) (Num 1) Null) = Inr (scenario_cleaned Null) \<and>
   length (rows (scenario_cleaned Null)) = 1 \<and>
   (\<exists>w'. chunk_and_insert iso_parsers (accepting_env []) [scenario_chunk_with (Num 1) (Num 1) Null]
            5000 empty_world = (Inr 1, w') \<and>
         table w' = table empty_world @ [scenario_third_row Null] \<and>
         out w' = out empty_world @ [ChunkLine 0 3 1 1, TotalLine 1])"
proof -
  have 1: "missing_or_nonneg Null" by simp
  have 2: "(0::int) < 5000" by simp
  from scenario_with_passenger_count [OF 1 2, of "Num 1" "Num 1" "[]" empty_world] 1 2
  show ?thesis by blast
qed

theorem clean_chunk_count_le_witness:
  "clean_chunk iso_parsers (scenario_chunk_with Null Null Null) = Inr (scenario_cleaned Null) \<and>
   length (rows (scenario_chunk_with Null Null Null)) = 3 \<and>
   length (rows (scenario_cleaned Null)) \<le> length (rows (scenario_chunk_with Null Null Null))"
proof -
  have h: "clean_chunk iso_parsers (scenario_chunk_with Null Null Null) = Inr (scenario_cleaned Null)"
    by (rule clean_scenario) simp
  have "length (rows (scenario_chunk_with Null Null Null)) = 3"
    by (simp add: scenario_chunk_with_def scenario_rows_def)
  with clean_chunk_count_le [OF h] h show ?thesis by blast
qed



end
